theory Spec2Isabelle
  imports Complex_Main "HOL-Library.Word"
begin

section \<open>The pixel-difference routine of App.tsx\<close>

text \<open>
  The development embeds the body of the \<open>afterImg.onload\<close> handler inside
  \<open>generateDifferenceImage\<close> (App.tsx, lines 128 to 167): the canvas is sized after the
  "before" image, a fresh \<open>ImageData\<close> is created, one loop walks the "before" buffer in
  steps of four bytes, and a percentage is computed from the number of flagged pixels.

  The computation is embedded in two layers. \<open>onload\<close> and \<open>generateDifferenceImage\<close>
  take the two \<open>ImageData\<close> objects returned by \<open>getImageData\<close> (lines 193 to 201):
  \<open>getImageData\<close> gives its canvas the width and height of the image and reads the
  whole canvas back, so \<open>beforeImg.width\<close> and \<open>beforeImg.height\<close> are the width and
  height of \<open>beforeImgData\<close>. \<open>afterImg_onload\<close> takes the two loaded images and adds
  the exceptions of the canvas calls, which the browser throws for an image of width or
  height 0; such an image has no \<open>ImageData\<close>.

  Decoding, \<open>drawImage\<close> (whose pixels \<open>putImageData\<close> overwrites) and the encoding of
  the canvas by \<open>toDataURL\<close> belong to the browser and are not modelled; nor are the
  figures derived from the percentage after line 167.
\<close>

subsection \<open>Data\<close>

type_synonym u8 = "8 word"

text \<open>\<open>ImageData\<close>: \<open>data\<close> is a \<open>Uint8ClampedArray\<close> of RGBA bytes, row after row.\<close>

record ImageData =
  width :: nat
  height :: nat
  data :: "u8 list"

text \<open>
  The browser only hands out \<open>ImageData\<close> objects with four bytes per pixel; a
  theorem that needs this says so with \<open>sized\<close>.
\<close>

definition sized :: "ImageData \<Rightarrow> bool" where
  "sized img \<longleftrightarrow> length (data img) = 4 * (width img * height img)"

text \<open>
  The pixel in column \<open>x\<close> of row \<open>y\<close>: its four bytes start at offset
  \<open>4 * (y * width + x)\<close> of the buffer.
\<close>

definition pixelAt :: "ImageData \<Rightarrow> nat \<Rightarrow> nat \<Rightarrow> u8 list" where
  "pixelAt img x y = take 4 (drop (4 * (y * width img + x)) (data img))"

text \<open>The colour written at flagged pixels (lines 151 to 154).\<close>

record rgba =
  red :: u8
  green :: u8
  blue :: u8
  alpha :: u8

text \<open>
  The numbers the loop computes with: reading a typed array past its end gives
  \<open>undefined\<close>, which arithmetic turns into \<open>NaN\<close>; every other value is an integer.
\<close>

datatype number = NaN | Num int

text \<open>
  The result of the division on line 167. The quotient of two integers is kept exact;
  the rounding to a double is not modelled.
\<close>

datatype quotient = NotANumber | Infinity | Finite rat

subsection \<open>Typed-array access and arithmetic\<close>

text \<open>\<open>arr[i]\<close> on a typed array: \<open>None\<close> stands for \<open>undefined\<close>.\<close>

definition get :: "u8 list \<Rightarrow> nat \<Rightarrow> u8 option" where
  "get arr i = (if i < length arr then Some (arr ! i) else None)"

definition toNumber :: "u8 option \<Rightarrow> number" where
  "toNumber v = (case v of None \<Rightarrow> NaN | Some x \<Rightarrow> Num (uint x))"

fun sub :: "number \<Rightarrow> number \<Rightarrow> number" where
  "sub (Num x) (Num y) = Num (x - y)"
| "sub _ _ = NaN"

fun Math_abs :: "number \<Rightarrow> number" where
  "Math_abs (Num x) = Num \<bar>x\<bar>"
| "Math_abs NaN = NaN"

text \<open>\<open>x > y\<close>: false as soon as one side is \<open>NaN\<close>.\<close>

fun gt :: "number \<Rightarrow> number \<Rightarrow> bool" where
  "gt (Num x) (Num y) = (y < x)"
| "gt _ _ = False"

text \<open>The conversion of a stored value by a \<open>Uint8ClampedArray\<close>: \<open>NaN\<close> becomes 0.\<close>

definition toUint8Clamp :: "number \<Rightarrow> u8" where
  "toUint8Clamp v = (case v of NaN \<Rightarrow> 0 | Num x \<Rightarrow> word_of_int (max 0 (min 255 x)))"

text \<open>\<open>arr[i] = v\<close>: a store past the end of a typed array is ignored.\<close>

definition put :: "u8 list \<Rightarrow> nat \<Rightarrow> number \<Rightarrow> u8 list" where
  "put arr i v = arr[i := toUint8Clamp v]"

text \<open>
  The \<open>ImageData\<close> that \<open>ctx.createImageData(w, h)\<close> returns when it returns: transparent
  black. The call throws when \<open>w\<close> or \<open>h\<close> is 0; see \<open>createImageData\<close> below.
\<close>

definition transparentBlack :: "nat \<Rightarrow> nat \<Rightarrow> ImageData" where
  "transparentBlack w h = \<lparr>width = w, height = h, data = replicate (4 * (w * h)) 0\<rparr>"

text \<open>\<open>n / d\<close> for two counts.\<close>

definition divide_count :: "nat \<Rightarrow> nat \<Rightarrow> quotient" where
  "divide_count n d =
     (if d = 0 then (if n = 0 then NotANumber else Infinity)
      else Finite (of_nat n / of_nat d))"

fun times100 :: "quotient \<Rightarrow> quotient" where
  "times100 (Finite q) = Finite (q * 100)"
| "times100 Infinity = Infinity"
| "times100 NotANumber = NotANumber"

subsection \<open>The loop (lines 142 to 161)\<close>

text \<open>
  The condition of line 149 at byte offset \<open>i\<close>. The source fixes \<open>threshold\<close> to 30
  inside the loop; it is an argument here so that the comparison can be studied for any
  value, and \<open>generateDifferenceImage\<close> below passes 30.
\<close>

definition changed :: "int \<Rightarrow> u8 list \<Rightarrow> u8 list \<Rightarrow> nat \<Rightarrow> bool" where
  "changed threshold beforeData afterData i =
     (let rDiff = Math_abs (sub (toNumber (get beforeData i)) (toNumber (get afterData i)));
          gDiff = Math_abs (sub (toNumber (get beforeData (i + 1)))
                                (toNumber (get afterData (i + 1))));
          bDiff = Math_abs (sub (toNumber (get beforeData (i + 2)))
                                (toNumber (get afterData (i + 2))))
      in gt rDiff (Num threshold) \<or> gt gDiff (Num threshold) \<or> gt bDiff (Num threshold))"

text \<open>One iteration: the state is \<open>totalChangedPixels\<close> and \<open>diffData.data\<close>.\<close>

definition body ::
  "int \<Rightarrow> rgba \<Rightarrow> u8 list \<Rightarrow> u8 list \<Rightarrow> nat \<Rightarrow> nat \<times> u8 list \<Rightarrow> nat \<times> u8 list" where
  "body threshold flag beforeData afterData i st =
     (case st of (cnt, diff) \<Rightarrow>
        if changed threshold beforeData afterData i
        then (cnt + 1,
              put (put (put (put diff i (Num (uint (red flag))))
                (i + 1) (Num (uint (green flag))))
                (i + 2) (Num (uint (blue flag))))
                (i + 3) (Num (uint (alpha flag))))
        else (cnt,
              put (put (put (put diff i (toNumber (get afterData i)))
                (i + 1) (toNumber (get afterData (i + 1))))
                (i + 2) (toNumber (get afterData (i + 2))))
                (i + 3) (toNumber (get afterData (i + 3)))))"

text \<open>\<open>for (let i = 0; i < beforeImgData.data.length; i += 4)\<close>, entered at \<open>i\<close>.\<close>

function loop ::
  "int \<Rightarrow> rgba \<Rightarrow> u8 list \<Rightarrow> u8 list \<Rightarrow> nat \<Rightarrow> nat \<times> u8 list \<Rightarrow> nat \<times> u8 list" where
  "loop threshold flag beforeData afterData i st =
     (if i < length beforeData
      then loop threshold flag beforeData afterData (i + 4)
             (body threshold flag beforeData afterData i st)
      else st)"
  by pat_completeness auto
termination
  by (relation "measure (\<lambda>(threshold, flag, beforeData, afterData, i, st).
        length beforeData - i)") auto

subsection \<open>The handler\<close>

text \<open>
  What the handler leaves behind: the size of the shared canvas (\<open>canvasRef.current\<close>)
  and the \<open>resultImage\<close> state, which receives the canvas after \<open>putImageData\<close>.
  \<open>diffData\<close> has the size of the canvas, so \<open>putImageData(diffData, 0, 0)\<close> replaces the
  whole bitmap and the result image is \<open>diffData\<close>.
\<close>

record AppState =
  canvas_width :: nat
  canvas_height :: nat
  resultImage :: "ImageData option"

text \<open>
  The values the handler computes: \<open>diffData\<close>, \<open>totalChangedPixels\<close>, the product
  \<open>canvas.width * canvas.height\<close>, the quotient in parentheses on line 167 and
  \<open>deforestationPercentage\<close>.
\<close>

record DiffResult =
  diffData :: ImageData
  totalChangedPixels :: nat
  totalPixels :: nat
  changeRatio :: quotient
  deforestationPercentage :: quotient

text \<open>
  What lines 128 to 167 compute once the three canvas calls (\<open>getImageData\<close> twice,
  \<open>createImageData\<close> once) have returned, with the two constants of the loop as
  arguments. The exceptions of these calls are in \<open>afterImg_onload\<close> below.
\<close>

definition onload ::
  "int \<Rightarrow> rgba \<Rightarrow> AppState \<Rightarrow> ImageData \<Rightarrow> ImageData \<Rightarrow> AppState \<times> DiffResult" where
  "onload threshold flag s beforeImgData afterImgData =
     (let s1 = s\<lparr>canvas_width := width beforeImgData, canvas_height := height beforeImgData\<rparr>;
          diffData0 = transparentBlack (canvas_width s1) (canvas_height s1);
          (cnt, diff) =
             loop threshold flag (data beforeImgData) (data afterImgData) 0
               (0, data diffData0);
          diffData1 = diffData0\<lparr>data := diff\<rparr>;
          s2 = s1\<lparr>resultImage := Some diffData1\<rparr>;
          pixels = canvas_width s2 * canvas_height s2;
          ratio = divide_count cnt pixels
      in (s2, \<lparr>diffData = diffData1, totalChangedPixels = cnt, totalPixels = pixels,
               changeRatio = ratio, deforestationPercentage = times100 ratio\<rparr>))"

definition flagRed :: rgba where
  "flagRed = \<lparr>red = 255, green = 0, blue = 0, alpha = 128\<rparr>"

definition generateDifferenceImage ::
  "AppState \<Rightarrow> ImageData \<Rightarrow> ImageData \<Rightarrow> AppState \<times> DiffResult" where
  "generateDifferenceImage s beforeImgData afterImgData =
     onload 30 flagRed s beforeImgData afterImgData"

subsection \<open>The canvas calls and their exceptions\<close>

text \<open>
  \<open>IndexSizeError\<close> is the exception of \<open>ctx.getImageData\<close> and \<open>ctx.createImageData\<close>
  for a width or height of 0; \<open>CouldNotGetContext\<close> is the error thrown on line 198.
  The source has no other error.
\<close>

datatype error = IndexSizeError | CouldNotGetContext

text \<open>
  A loaded image: its width, its height and the RGBA bytes the browser draws for it,
  row after row.
\<close>

record HTMLImageElement =
  img_width :: nat
  img_height :: nat
  bitmap :: "u8 list"

text \<open>
  \<open>getImageData\<close> (lines 193 to 201): a canvas of the size of the image, the image
  drawn on it, the whole canvas read back. \<open>has2d\<close> tells whether \<open>getContext('2d')\<close>
  returns a context.
\<close>

definition getImageData :: "bool \<Rightarrow> HTMLImageElement \<Rightarrow> error + ImageData" where
  "getImageData has2d img =
     (if \<not> has2d then Inl CouldNotGetContext
      else if img_width img = 0 \<or> img_height img = 0 then Inl IndexSizeError
      else Inr \<lparr>width = img_width img, height = img_height img, data = bitmap img\<rparr>)"

text \<open>\<open>ctx.createImageData(w, h)\<close> (line 139).\<close>

definition createImageData :: "nat \<Rightarrow> nat \<Rightarrow> error + ImageData" where
  "createImageData w h =
     (if w = 0 \<or> h = 0 then Inl IndexSizeError else Inr (transparentBlack w h))"

text \<open>
  The handler of lines 128 to 167 on the two loaded images, in the order of the source:
  the canvas takes the size of \<open>beforeImg\<close>, then \<open>getImageData(beforeImg)\<close>,
  \<open>getImageData(afterImg)\<close>, \<open>createImageData\<close> with the size of the canvas, then the
  loop and the percentage. An exception ends the handler: it leaves the state it has
  reached, in which the canvas has its new size and \<open>resultImage\<close> is untouched, and
  nothing is computed after it.
\<close>

definition afterImg_onload ::
  "bool \<Rightarrow> AppState \<Rightarrow> HTMLImageElement \<Rightarrow> HTMLImageElement
     \<Rightarrow> error \<times> AppState + AppState \<times> DiffResult" where
  "afterImg_onload has2d s beforeImg afterImg =
     (let s1 = s\<lparr>canvas_width := img_width beforeImg, canvas_height := img_height beforeImg\<rparr>
      in case getImageData has2d beforeImg of
           Inl e \<Rightarrow> Inl (e, s1)
         | Inr beforeImgData \<Rightarrow>
             (case getImageData has2d afterImg of
                Inl e \<Rightarrow> Inl (e, s1)
              | Inr afterImgData \<Rightarrow>
                  (case createImageData (canvas_width s1) (canvas_height s1) of
                     Inl e \<Rightarrow> Inl (e, s1)
                   | Inr diffData0 \<Rightarrow>
                       Inr (generateDifferenceImage s1 beforeImgData afterImgData))))"

subsection \<open>Auxiliary notions for the proofs\<close>

text \<open>The byte offsets the loop visits when it is entered at \<open>i\<close> with a buffer of \<open>n\<close> bytes.\<close>

function offsets :: "nat \<Rightarrow> nat \<Rightarrow> nat list" where
  "offsets i n = (if i < n then i # offsets (i + 4) n else [])"
  by pat_completeness auto
termination
  by (relation "measure (\<lambda>(i, n). n - i)") auto

text \<open>Byte \<open>k\<close> of the four bytes one iteration stores at offset \<open>i\<close>.\<close>

definition outByte :: "int \<Rightarrow> rgba \<Rightarrow> u8 list \<Rightarrow> u8 list \<Rightarrow> nat \<Rightarrow> nat \<Rightarrow> u8" where
  "outByte threshold flag beforeData afterData i k =
     (if changed threshold beforeData afterData i
      then [red flag, green flag, blue flag, alpha flag] ! k
      else toUint8Clamp (toNumber (get afterData (i + k))))"

subsection \<open>Example inputs\<close>

text \<open>A canvas as the browser creates it, before the handler has run.\<close>

definition canvas0 :: AppState where
  "canvas0 = \<lparr>canvas_width = 300, canvas_height = 150, resultImage = None\<rparr>"

text \<open>One-pixel images whose red channels are 100 and 131; the alpha channels differ too.\<close>

definition px100 :: ImageData where
  "px100 = \<lparr>width = 1, height = 1, data = [100, 0, 0, 255]\<rparr>"

definition px131 :: ImageData where
  "px131 = \<lparr>width = 1, height = 1, data = [131, 0, 0, 7]\<rparr>"

text \<open>
  A "before" image of two pixels and an "after" image of one pixel, and the same "after"
  image with a second, transparent black pixel added.
\<close>

definition wide2 :: ImageData where
  "wide2 = \<lparr>width = 2, height = 1, data = [255, 255, 255, 255, 200, 200, 200, 255]\<rparr>"



text \<open>
  A "before" image of 2 by 2 pixels, and an "after" image of 3 by 3 pixels whose upper
  left 2 by 2 block is that "before" image.
\<close>

definition grid2x2 :: ImageData where
  "grid2x2 = \<lparr>width = 2, height = 2,
     data = [10, 10, 10, 255,  20, 20, 20, 255,
             30, 30, 30, 255,  40, 40, 40, 255]\<rparr>"

definition grid3x3 :: ImageData where
  "grid3x3 = \<lparr>width = 3, height = 3,
     data = [10, 10, 10, 255,  20, 20, 20, 255,  200, 200, 200, 255,
             30, 30, 30, 255,  40, 40, 40, 255,  50, 50, 50, 255,
             60, 60, 60, 255,  70, 70, 70, 255,  80, 80, 80, 255]\<rparr>"


text \<open>A loaded image of width and height 0, and a loaded image of one pixel.\<close>

definition emptyImg :: HTMLImageElement where
  "emptyImg = \<lparr>img_width = 0, img_height = 0, bitmap = []\<rparr>"

definition pixelImg :: HTMLImageElement where
  "pixelImg = \<lparr>img_width = 1, img_height = 1, bitmap = [100, 0, 0, 255]\<rparr>"

section \<open>Properties of the loop\<close>

declare loop.simps [simp del] offsets.simps [simp del]

lemma toUint8Clamp_uint [simp]: "toUint8Clamp (Num (uint (x::u8))) = x"
proof -
  have "uint x < 256" using uint_bounded [of x] by simp
  moreover have "0 \<le> uint x" by simp
  ultimately have "max 0 (min 255 (uint x)) = uint x" by simp
  then show ?thesis by (simp add: toUint8Clamp_def)
qed

lemma toUint8Clamp_get [simp]:
  "i < length arr \<Longrightarrow> toUint8Clamp (toNumber (get arr i)) = arr ! i"
  by (simp add: get_def toNumber_def)

lemma toUint8Clamp_get_out [simp]:
  "length arr \<le> i \<Longrightarrow> toUint8Clamp (toNumber (get arr i)) = 0"
  by (simp add: get_def toNumber_def toUint8Clamp_def)

lemma body_length [simp]: "length (snd (body t f B A i st)) = length (snd st)"
  by (cases st) (simp add: body_def put_def)

lemma body_fst: "fst (body t f B A i st) = fst st + (if changed t B A i then 1 else 0)"
  by (cases st) (simp add: body_def)

lemma body_nth_other:
  "j < i \<or> i + 3 < j \<Longrightarrow> snd (body t f B A i st) ! j = snd st ! j"
  by (cases st) (auto simp add: body_def put_def)

lemma body_nth_pixel:
  "i + 3 < length (snd st) \<Longrightarrow> k < 4 \<Longrightarrow>
   snd (body t f B A i st) ! (i + k) = outByte t f B A i k"
proof -
  assume len: "i + 3 < length (snd st)" and k: "k < 4"
  from k have "k = 0 \<or> k = 1 \<or> k = 2 \<or> k = 3" by arith
  with len show ?thesis
    by (cases st) (auto simp add: body_def put_def outByte_def)
qed

lemma loop_fold: "loop t f B A i st = fold (body t f B A) (offsets i (length B)) st"
proof (induction t f B A i st rule: loop.induct)
  case (1 t f B A i st)
  show ?case
  proof (cases "i < length B")
    case True
    with "1" show ?thesis
      by (subst loop.simps, subst offsets.simps) simp
  next
    case False
    then show ?thesis
      by (subst loop.simps, subst offsets.simps) simp
  qed
qed

lemma offsets_sized: "offsets (4 * j) (4 * k) = map (\<lambda>p. 4 * p) [j..<k]"
proof (induction "k - j" arbitrary: j)
  case 0
  then show ?case by (subst offsets.simps) simp
next
  case (Suc d)
  then have lt: "j < k" and d: "d = k - Suc j" by arith+
  have "offsets (4 * j) (4 * k) = 4 * j # offsets (4 * Suc j) (4 * k)"
    using lt by (subst offsets.simps) (simp add: add.commute)
  also have "offsets (4 * Suc j) (4 * k) = map (\<lambda>p. 4 * p) [Suc j..<k]"
    using Suc.hyps(1) [OF d] .
  finally show ?case using lt by (simp add: upt_conv_Cons)
qed

lemma fold_count:
  "fst (fold (body t f B A) xs st) = fst st + length (filter (changed t B A) xs)"
  by (induction xs arbitrary: st) (simp_all add: body_fst)

lemma fold_length [simp]: "length (snd (fold (body t f B A) xs st)) = length (snd st)"
  by (induction xs arbitrary: st) simp_all

lemma fold_pixel:
  "p < k \<Longrightarrow> 4 * p + 3 < length (snd st) \<Longrightarrow> kk < 4 \<Longrightarrow>
   snd (fold (body t f B A) (map (\<lambda>p. 4 * p) [0..<k]) st) ! (4 * p + kk) = outByte t f B A (4 * p) kk"
proof (induction k)
  case 0
  then show ?case by simp
next
  case (Suc k)
  let ?st = "fold (body t f B A) (map (\<lambda>p. 4 * p) [0..<k]) st"
  have step: "fold (body t f B A) (map (\<lambda>p. 4 * p) [0..<Suc k]) st = body t f B A (4 * k) ?st"
    by simp
  show ?case
  proof (cases "p = k")
    case True
    with Suc.prems show ?thesis
      unfolding step by (simp add: body_nth_pixel)
  next
    case False
    with Suc.prems have pk: "p < k" by simp
    with Suc.prems have "4 * p + kk < 4 * k" by arith
    then have "snd (body t f B A (4 * k) ?st) ! (4 * p + kk) = snd ?st ! (4 * p + kk)"
      by (simp add: body_nth_other)
    with Suc.IH [OF pk Suc.prems(2,3)] show ?thesis
      unfolding step by simp
  qed
qed

section \<open>Properties of the handler\<close>

lemma onload_diffData:
  "diffData (snd (onload t f s b a)) =
     \<lparr>width = width b, height = height b,
      data = snd (fold (body t f (data b) (data a)) (offsets 0 (length (data b)))
                    (0, replicate (4 * (width b * height b)) 0))\<rparr>"
  by (simp add: onload_def transparentBlack_def loop_fold Let_def split: prod.splits)

lemma onload_totalChangedPixels:
  "totalChangedPixels (snd (onload t f s b a)) =
     length (filter (changed t (data b) (data a)) (offsets 0 (length (data b))))"
proof -
  have "totalChangedPixels (snd (onload t f s b a)) =
      fst (fold (body t f (data b) (data a)) (offsets 0 (length (data b)))
                    (0, replicate (4 * (width b * height b)) 0))"
    by (simp add: onload_def transparentBlack_def loop_fold Let_def split: prod.splits)
  then show ?thesis by (simp add: fold_count)
qed

lemma onload_totalPixels: "totalPixels (snd (onload t f s b a)) = width b * height b"
  by (simp add: onload_def Let_def split: prod.splits)

lemma onload_changeRatio:
  "changeRatio (snd (onload t f s b a)) =
     divide_count (totalChangedPixels (snd (onload t f s b a))) (totalPixels (snd (onload t f s b a)))"
  by (simp add: onload_def Let_def split: prod.splits)

lemma onload_deforestationPercentage:
  "deforestationPercentage (snd (onload t f s b a)) = times100 (changeRatio (snd (onload t f s b a)))"
  by (simp add: onload_def Let_def split: prod.splits)


lemma offsets_sized0:
  "sized b \<Longrightarrow> offsets 0 (length (data b)) = map (\<lambda>p. 4 * p) [0..<width b * height b]"
  using offsets_sized [of 0 "width b * height b"] by (simp add: sized_def)

lemma onload_data_length:
  "length (data (diffData (snd (onload t f s b a)))) = 4 * (width b * height b)"
  by (simp add: onload_diffData)

lemma onload_data_nth:
  assumes "sized b" and "p < width b * height b" and "kk < 4"
  shows "data (diffData (snd (onload t f s b a))) ! (4 * p + kk) =
         outByte t f (data b) (data a) (4 * p) kk"
proof -
  from assms(2) have "4 * p + 3 < length (snd (0::nat, replicate (4 * (width b * height b)) (0::u8)))"
    by simp
  from fold_pixel [OF assms(2) this assms(3)] show ?thesis
    by (simp add: onload_diffData offsets_sized0 [OF assms(1)])
qed

lemma take4_drop:
  "k + 3 < length xs \<Longrightarrow> take 4 (drop k xs) = [xs ! k, xs ! (k + 1), xs ! (k + 2), xs ! (k + 3)]"
proof -
  assume len: "k + 3 < length xs"
  have "drop k xs = xs ! k # drop (Suc k) xs"
    using len by (simp add: Cons_nth_drop_Suc)
  also have "drop (Suc k) xs = xs ! Suc k # drop (Suc (Suc k)) xs"
    using len by (simp add: Cons_nth_drop_Suc)
  also have "drop (Suc (Suc k)) xs = xs ! Suc (Suc k) # drop (Suc (Suc (Suc k))) xs"
    using len by (simp add: Cons_nth_drop_Suc)
  also have "drop (Suc (Suc (Suc k))) xs = xs ! Suc (Suc (Suc k)) # drop (Suc (Suc (Suc (Suc k)))) xs"
    using len by (simp add: Cons_nth_drop_Suc)
  finally show ?thesis
    by (simp add: numeral_2_eq_2 numeral_3_eq_3)
qed

lemma number_cases3:
  "gt (Math_abs (sub (toNumber (get B i)) (toNumber (get A i)))) (Num t) \<longleftrightarrow>
     i < length B \<and> i < length A \<and> t < \<bar>uint (B ! i) - uint (A ! i)\<bar>"
  by (simp add: get_def toNumber_def)

lemma changed_iff:
  "changed t B A i \<longleftrightarrow>
     (i < length B \<and> i < length A \<and> t < \<bar>uint (B ! i) - uint (A ! i)\<bar>) \<or>
     (i + 1 < length B \<and> i + 1 < length A \<and> t < \<bar>uint (B ! (i + 1)) - uint (A ! (i + 1))\<bar>) \<or>
     (i + 2 < length B \<and> i + 2 < length A \<and> t < \<bar>uint (B ! (i + 2)) - uint (A ! (i + 2))\<bar>)"
  by (simp add: changed_def Let_def number_cases3)


lemma changed_sym: "changed t B A i = changed t A B i"
  by (auto simp add: changed_iff abs_minus_commute)

lemma changed_mono: "t \<le> t' \<Longrightarrow> changed t' B A i \<Longrightarrow> changed t B A i"
  by (auto simp add: changed_iff)

lemma changed_same: "0 \<le> t \<Longrightarrow> \<not> changed t B B i"
  by (simp add: changed_iff)

lemma changed_alpha: "changed t (B[i + 3 := x]) (A[i + 3 := y]) i = changed t B A i"
  by (simp add: changed_iff)

lemma length_filter_mono:
  "(\<And>x. x \<in> set xs \<Longrightarrow> P x \<Longrightarrow> Q x) \<Longrightarrow> length (filter P xs) \<le> length (filter Q xs)"
  by (induction xs) auto

lemma grid_offset_less: "x < w \<Longrightarrow> y < h \<Longrightarrow> y * w + x < w * (h::nat)"
proof -
  assume x: "x < w" and y: "y < h"
  from x have "y * w + x < Suc y * w" by simp
  also from y have "Suc y * w \<le> h * w" by (intro mult_le_mono1) simp
  finally show ?thesis by (simp add: mult.commute)
qed

lemma pixelAt_nth:
  assumes "sized img" and "x < width img" and "y < height img"
  shows "pixelAt img x y =
           [data img ! (4 * (y * width img + x)), data img ! (4 * (y * width img + x) + 1),
            data img ! (4 * (y * width img + x) + 2), data img ! (4 * (y * width img + x) + 3)]"
proof -
  from grid_offset_less [OF assms(2,3)] assms(1)
  have "4 * (y * width img + x) + 3 < length (data img)"
    by (simp add: sized_def)
  then show ?thesis
    unfolding pixelAt_def by (rule take4_drop)
qed

lemma clamp_get_if:
  "toUint8Clamp (toNumber (get A j)) = (if j < length A then A ! j else 0)"
  by simp

lemma take4_pad:
  "take 4 (drop i A @ replicate 4 0) =
     [toUint8Clamp (toNumber (get A i)), toUint8Clamp (toNumber (get A (i + 1))),
      toUint8Clamp (toNumber (get A (i + 2))), toUint8Clamp (toNumber (get A (i + 3)))]"
proof (rule nth_equalityI)
  show "length (take 4 (drop i A @ replicate 4 0)) =
        length [toUint8Clamp (toNumber (get A i)), toUint8Clamp (toNumber (get A (i + 1))),
      toUint8Clamp (toNumber (get A (i + 2))), toUint8Clamp (toNumber (get A (i + 3)))]"
    by simp
next
  fix k assume "k < length (take 4 (drop i A @ replicate 4 0))"
  then have "k = 0 \<or> k = 1 \<or> k = 2 \<or> k = 3" by auto
  then show "take 4 (drop i A @ replicate 4 0) ! k =
     [toUint8Clamp (toNumber (get A i)), toUint8Clamp (toNumber (get A (i + 1))),
      toUint8Clamp (toNumber (get A (i + 2))), toUint8Clamp (toNumber (get A (i + 3)))] ! k"
    by (auto simp add: nth_append clamp_get_if simp del: toUint8Clamp_get toUint8Clamp_get_out)
qed

lemma onload_pixelAt:
  assumes "sized b" and "x < width b" and "y < height b"
  shows "pixelAt (diffData (snd (onload t f s b a))) x y =
           (if changed t (data b) (data a) (4 * (y * width b + x))
            then [red f, green f, blue f, alpha f]
            else take 4 (drop (4 * (y * width b + x)) (data a) @ replicate 4 0))"
proof -
  define p where "p = y * width b + x"
  let ?d = "data (diffData (snd (onload t f s b a)))"
  have p: "p < width b * height b"
    unfolding p_def using grid_offset_less [OF assms(2,3)] .
  have nth: "?d ! (4 * p + kk) = outByte t f (data b) (data a) (4 * p) kk" if "kk < 4" for kk
    using onload_data_nth [OF assms(1) p that] .
  from p have "4 * p + 3 < length ?d"
    by (simp add: onload_data_length)
  then have "take 4 (drop (4 * p) ?d) =
      [?d ! (4 * p), ?d ! (4 * p + 1), ?d ! (4 * p + 2), ?d ! (4 * p + 3)]"
    by (rule take4_drop)
  also have "\<dots> = [outByte t f (data b) (data a) (4 * p) 0, outByte t f (data b) (data a) (4 * p) 1,
                   outByte t f (data b) (data a) (4 * p) 2, outByte t f (data b) (data a) (4 * p) 3]"
    using nth [of 0] nth [of 1] nth [of 2] nth [of 3] by simp
  also have "\<dots> = (if changed t (data b) (data a) (4 * p)
            then [red f, green f, blue f, alpha f]
            else take 4 (drop (4 * p) (data a) @ replicate 4 0))"
    unfolding take4_pad by (simp add: outByte_def)
  finally have "take 4 (drop (4 * p) ?d) =
      (if changed t (data b) (data a) (4 * p)
            then [red f, green f, blue f, alpha f]
            else take 4 (drop (4 * p) (data a) @ replicate 4 0))" .
  moreover have "pixelAt (diffData (snd (onload t f s b a))) x y = take 4 (drop (4 * p) ?d)"
    unfolding pixelAt_def p_def by (simp add: onload_diffData)
  ultimately show ?thesis
    unfolding p_def by simp
qed

lemma take4_pad_inside:
  "i + 3 < length A \<Longrightarrow> take 4 (drop i A @ replicate 4 0) = take 4 (drop i A)"
  by simp


text \<open>
  With two images that have pixels and a 2D context, no canvas call throws and the
  handler returns what \<open>generateDifferenceImage\<close> computes from their \<open>ImageData\<close>.
\<close>

lemma afterImg_onload_returns:
  assumes "0 < img_width bi" and "0 < img_height bi" and "0 < img_width ai" and "0 < img_height ai"
  shows "afterImg_onload True s bi ai =
           Inr (generateDifferenceImage
                  (s\<lparr>canvas_width := img_width bi, canvas_height := img_height bi\<rparr>)
                  \<lparr>width = img_width bi, height = img_height bi, data = bitmap bi\<rparr>
                  \<lparr>width = img_width ai, height = img_height ai, data = bitmap ai\<rparr>)"
  using assms by (simp add: afterImg_onload_def getImageData_def createImageData_def)

section \<open>The claims\<close>

text \<open>
  C1, as the code has it. The loop pairs the two buffers by byte offset, not by position:
  the pixel in column \<open>x\<close> of row \<open>y\<close> of the "before" image, at offset
  \<open>4 * (y * width + x)\<close> with the width of the "before" image, is flagged exactly when
  the absolute difference between one of its red, green and blue bytes and the byte of
  the "after" buffer at the same offset is strictly greater than the threshold (30 in
  \<open>generateDifferenceImage\<close>). A byte past the end of the "after" buffer never flags
  the pixel, a difference equal to the threshold does not flag it, the alpha bytes play
  no part, and \<open>totalChangedPixels\<close> is the number of pixels flagged in this way.
  When the two images have the same width and the "after" image has a row \<open>y\<close>, as
  with images of equal size, the bytes compared are those of the pixel of the "after"
  image in column \<open>x\<close> of row \<open>y\<close>.
\<close>

theorem classification_by_offset:
  assumes "sized b" and "x < width b" and "y < height b"
  defines "p \<equiv> y * width b + x"
  shows "(changed t (data b) (data a) (4 * p) \<longleftrightarrow>
            (4 * p < length (data a) \<and>
               t < \<bar>uint (data b ! (4 * p)) - uint (data a ! (4 * p))\<bar>) \<or>
            (4 * p + 1 < length (data a) \<and>
               t < \<bar>uint (data b ! (4 * p + 1)) - uint (data a ! (4 * p + 1))\<bar>) \<or>
            (4 * p + 2 < length (data a) \<and>
               t < \<bar>uint (data b ! (4 * p + 2)) - uint (data a ! (4 * p + 2))\<bar>))
       \<and> (sized a \<and> width a = width b \<and> y < height a \<longrightarrow>
            (changed t (data b) (data a) (4 * p) \<longleftrightarrow>
               t < \<bar>uint (pixelAt b x y ! 0) - uint (pixelAt a x y ! 0)\<bar> \<or>
               t < \<bar>uint (pixelAt b x y ! 1) - uint (pixelAt a x y ! 1)\<bar> \<or>
               t < \<bar>uint (pixelAt b x y ! 2) - uint (pixelAt a x y ! 2)\<bar>))
       \<and> changed t ((data b)[4 * p + 3 := u]) ((data a)[4 * p + 3 := v]) (4 * p) =
           changed t (data b) (data a) (4 * p)
       \<and> totalChangedPixels (snd (onload t f s b a)) =
           length (filter (\<lambda>q. changed t (data b) (data a) (4 * q)) [0..<width b * height b])"
proof -
  have p: "p < width b * height b"
    unfolding p_def using grid_offset_less [OF assms(2,3)] .
  with assms(1) have inb: "4 * p + 2 < length (data b)"
    by (simp add: sized_def)
  then have flat: "changed t (data b) (data a) (4 * p) \<longleftrightarrow>
            (4 * p < length (data a) \<and>
               t < \<bar>uint (data b ! (4 * p)) - uint (data a ! (4 * p))\<bar>) \<or>
            (4 * p + 1 < length (data a) \<and>
               t < \<bar>uint (data b ! (4 * p + 1)) - uint (data a ! (4 * p + 1))\<bar>) \<or>
            (4 * p + 2 < length (data a) \<and>
               t < \<bar>uint (data b ! (4 * p + 2)) - uint (data a ! (4 * p + 2))\<bar>)"
    by (simp add: changed_iff)
  have grid: "changed t (data b) (data a) (4 * p) \<longleftrightarrow>
               t < \<bar>uint (pixelAt b x y ! 0) - uint (pixelAt a x y ! 0)\<bar> \<or>
               t < \<bar>uint (pixelAt b x y ! 1) - uint (pixelAt a x y ! 1)\<bar> \<or>
               t < \<bar>uint (pixelAt b x y ! 2) - uint (pixelAt a x y ! 2)\<bar>"
    if eq: "sized a \<and> width a = width b \<and> y < height a"
  proof -
    from eq assms(2) have xa: "x < width a" and ya: "y < height a" and sa: "sized a"
      by simp_all
    have pa: "pixelAt a x y =
        [data a ! (4 * p), data a ! (4 * p + 1), data a ! (4 * p + 2), data a ! (4 * p + 3)]"
      using pixelAt_nth [OF sa xa ya] eq by (simp add: p_def)
    have pb: "pixelAt b x y =
        [data b ! (4 * p), data b ! (4 * p + 1), data b ! (4 * p + 2), data b ! (4 * p + 3)]"
      using pixelAt_nth [OF assms(1,2,3)] by (simp add: p_def)
    from grid_offset_less [OF xa ya] sa eq have "4 * p + 2 < length (data a)"
      by (simp add: sized_def p_def)
    with flat show ?thesis
      by (simp add: pa pb)
  qed
  have cnt: "totalChangedPixels (snd (onload t f s b a)) =
           length (filter (\<lambda>q. changed t (data b) (data a) (4 * q)) [0..<width b * height b])"
    by (simp add: onload_totalChangedPixels offsets_sized0 [OF assms(1)] filter_map comp_def)
  from flat grid cnt show ?thesis
    by (simp only: changed_alpha) blast
qed

theorem classification_by_offset_witness:
  "sized px100 \<and> 0 < width px100 \<and> 0 < height px100
   \<and> sized px131 \<and> width px131 = width px100 \<and> 0 < height px131
   \<and> changed 30 (data px100) (data px131) (4 * (0 * width px100 + 0))
   \<and> 30 < \<bar>uint (pixelAt px100 0 0 ! 0) - uint (pixelAt px131 0 0 ! 0)\<bar>
   \<and> totalChangedPixels (snd (onload 30 flagRed canvas0 px100 px131)) = 1"
proof -
  have h1: "sized px100" by (simp add: sized_def px100_def)
  have h2: "0 < width px100" by (simp add: px100_def)
  have h3: "0 < height px100" by (simp add: px100_def)
  have h4: "sized px131 \<and> width px131 = width px100 \<and> 0 < height px131"
    by (simp add: sized_def px100_def px131_def)
  have v: "data px100 = [100, 0, 0, 255]" "data px131 = [131, 0, 0, 7]"
    "width px100 = Suc 0" "height px100 = Suc 0"
    "pixelAt px100 0 0 = [100, 0, 0, 255]" "pixelAt px131 0 0 = [131, 0, 0, 7]"
    by (simp_all add: px100_def px131_def pixelAt_def)
  from classification_by_offset [OF h1 h2 h3, where t = 30 and a = px131 and u = 0 and v = 0
      and f = flagRed and s = canvas0]
  show ?thesis
    using h1 h2 h3 h4 by (simp add: v)
qed

text \<open>
  C1 as worded compares the pixels at the same position of the two images. The "before"
  image of 2 by 2 pixels is the upper left block of the "after" image of 3 by 3 pixels,
  so no position differs; yet the pixel in column 0 of row 1 is flagged, because the loop
  compares it with the third pixel of the first row of the "after" image.
\<close>

theorem classification_counterexample:
  "pixelAt grid2x2 0 0 = pixelAt grid3x3 0 0
   \<and> pixelAt grid2x2 1 0 = pixelAt grid3x3 1 0
   \<and> pixelAt grid2x2 0 1 = pixelAt grid3x3 0 1
   \<and> pixelAt grid2x2 1 1 = pixelAt grid3x3 1 1
   \<and> changed 30 (data grid2x2) (data grid3x3) (4 * (1 * width grid2x2 + 0))
   \<and> totalChangedPixels (snd (generateDifferenceImage canvas0 grid2x2 grid3x3)) = 1"
  by code_simp

text \<open>
  C2, as the code has it. In the overlay \<open>diffData\<close>, the pixel in column \<open>x\<close> of row
  \<open>y\<close> is the flag colour (255, 0, 0, 128 in \<open>generateDifferenceImage\<close>) when the pixel is
  flagged; otherwise it is made of the four bytes, alpha included, of the "after" buffer at
  the same byte offset \<open>4 * (y * width + x)\<close>, with the width of the "before" image, and
  of 0 for every byte past the end of the "after" buffer. When the two images have the
  same width and the "after" image has a row \<open>y\<close>, as with images of equal size, this is
  the pixel of the "after" image in column \<open>x\<close> of row \<open>y\<close>, unmodified.
\<close>

theorem overlay_pixel_by_offset:
  assumes "sized b" and "x < width b" and "y < height b"
  defines "p \<equiv> y * width b + x"
  shows "pixelAt (diffData (snd (onload t f s b a))) x y =
           (if changed t (data b) (data a) (4 * p)
            then [red f, green f, blue f, alpha f]
            else take 4 (drop (4 * p) (data a) @ replicate 4 0))
       \<and> (sized a \<and> width a = width b \<and> y < height a
            \<and> \<not> changed t (data b) (data a) (4 * p) \<longrightarrow>
            pixelAt (diffData (snd (onload t f s b a))) x y = pixelAt a x y)"
proof -
  have ov: "pixelAt (diffData (snd (onload t f s b a))) x y =
           (if changed t (data b) (data a) (4 * p)
            then [red f, green f, blue f, alpha f]
            else take 4 (drop (4 * p) (data a) @ replicate 4 0))"
    unfolding p_def by (rule onload_pixelAt [OF assms(1,2,3)])
  have "pixelAt (diffData (snd (onload t f s b a))) x y = pixelAt a x y"
    if eq: "sized a \<and> width a = width b \<and> y < height a \<and> \<not> changed t (data b) (data a) (4 * p)"
  proof -
    from eq assms(2) have xa: "x < width a" and ya: "y < height a" and sa: "sized a"
      by simp_all
    from grid_offset_less [OF xa ya] sa eq have "4 * p + 3 < length (data a)"
      by (simp add: sized_def p_def)
    then have "take 4 (drop (4 * p) (data a) @ replicate 4 0) = take 4 (drop (4 * p) (data a))"
      by (rule take4_pad_inside)
    also have "\<dots> = pixelAt a x y"
      using eq by (simp add: pixelAt_def p_def)
    finally show ?thesis
      using ov eq by simp
  qed
  with ov show ?thesis by blast
qed

theorem overlay_pixel_by_offset_witness:
  "sized px100 \<and> 0 < width px100 \<and> 0 < height px100
   \<and> sized px131 \<and> width px131 = width px100 \<and> 0 < height px131
   \<and> changed 30 (data px100) (data px131) (4 * (0 * width px100 + 0))
   \<and> pixelAt (diffData (snd (onload 30 flagRed canvas0 px100 px131))) 0 0 = [255, 0, 0, 128]
   \<and> \<not> changed 31 (data px100) (data px131) (4 * (0 * width px100 + 0))
   \<and> pixelAt (diffData (snd (onload 31 flagRed canvas0 px100 px131))) 0 0 = pixelAt px131 0 0
   \<and> pixelAt px131 0 0 = [131, 0, 0, 7]"
proof -
  have h1: "sized px100" by (simp add: sized_def px100_def)
  have h2: "0 < width px100" by (simp add: px100_def)
  have h3: "0 < height px100" by (simp add: px100_def)
  have h4: "sized px131 \<and> width px131 = width px100 \<and> 0 < height px131"
    by (simp add: sized_def px100_def px131_def)
  have c: "changed 30 (data px100) (data px131) (4 * (0 * width px100 + 0))"
    "\<not> changed 31 (data px100) (data px131) (4 * (0 * width px100 + 0))"
    by (simp_all add: changed_iff px100_def px131_def)
  have v: "pixelAt px131 0 0 = [131, 0, 0, 7]"
    by (simp add: px131_def pixelAt_def)
  from overlay_pixel_by_offset [OF h1 h2 h3, where t = 30 and a = px131 and f = flagRed
      and s = canvas0]
    overlay_pixel_by_offset [OF h1 h2 h3, where t = 31 and a = px131 and f = flagRed
      and s = canvas0]
  show ?thesis
    using h1 h2 h3 h4 c v by (auto simp add: flagRed_def)
qed

text \<open>
  C2 as worded copies the pixel at the same position of the "after" image. With the
  images of 2 by 2 and 3 by 3 pixels the pixel in column 1 of row 1 is not flagged and
  the overlay holds (30, 30, 30, 255) there, the first pixel of the second row of the
  "after" image, whose pixel in column 1 of row 1 is (40, 40, 40, 255).
\<close>

theorem overlay_pixel_counterexample:
  "\<not> changed 30 (data grid2x2) (data grid3x3) (4 * (1 * width grid2x2 + 1))
   \<and> pixelAt (diffData (snd (generateDifferenceImage canvas0 grid2x2 grid3x3))) 1 1 =
       [30, 30, 30, 255]
   \<and> pixelAt grid3x3 1 1 = [40, 40, 40, 255]"
  by code_simp

text \<open>
  C3. For a "before" image with at least one pixel, \<open>totalChangedPixels\<close> is at most
  \<open>canvas.width * canvas.height\<close>, the quotient computed on line 167 is the exact ratio
  of the two, and it lies between 0 and 1.
\<close>

theorem count_bounds_and_ratio:
  assumes "sized b" and "0 < width b" and "0 < height b"
  shows "totalChangedPixels (snd (onload t f s b a)) \<le> totalPixels (snd (onload t f s b a))
       \<and> totalPixels (snd (onload t f s b a)) = width b * height b
       \<and> changeRatio (snd (onload t f s b a)) =
           Finite (of_nat (totalChangedPixels (snd (onload t f s b a))) /
                   of_nat (totalPixels (snd (onload t f s b a))))
       \<and> (\<exists>q. changeRatio (snd (onload t f s b a)) = Finite q \<and> 0 \<le> q \<and> q \<le> 1)"
proof -
  let ?r = "snd (onload t f s b a)"
  have le: "totalChangedPixels ?r \<le> totalPixels ?r"
    by (simp add: onload_totalChangedPixels onload_totalPixels offsets_sized0 [OF assms(1)]
        le_trans [OF length_filter_le])
  have pos: "0 < totalPixels ?r"
    using assms(2,3) by (simp add: onload_totalPixels)
  have ratio: "changeRatio ?r = Finite (of_nat (totalChangedPixels ?r) / of_nat (totalPixels ?r))"
    using pos by (simp add: onload_changeRatio divide_count_def)
  have "(of_nat (totalChangedPixels ?r) :: rat) / of_nat (totalPixels ?r) \<le> 1"
    using le pos by simp
  moreover have "0 \<le> (of_nat (totalChangedPixels ?r) :: rat) / of_nat (totalPixels ?r)"
    by simp
  ultimately show ?thesis
    using le ratio by (simp add: onload_totalPixels)
qed

theorem count_bounds_and_ratio_witness:
  "sized px100 \<and> 0 < width px100 \<and> 0 < height px100
   \<and> totalChangedPixels (snd (onload 30 flagRed canvas0 px100 px131))
        \<le> totalPixels (snd (onload 30 flagRed canvas0 px100 px131))
   \<and> totalPixels (snd (onload 30 flagRed canvas0 px100 px131)) = 1
   \<and> (\<exists>q. changeRatio (snd (onload 30 flagRed canvas0 px100 px131)) = Finite q \<and> 0 \<le> q \<and> q \<le> 1)"
proof -
  have h1: "sized px100" by (simp add: sized_def px100_def)
  have h2: "0 < width px100" by (simp add: px100_def)
  have h3: "0 < height px100" by (simp add: px100_def)
  from count_bounds_and_ratio [OF h1 h2 h3, of 30 flagRed canvas0 px131]
  show ?thesis
    using h1 h2 h3 by (simp add: px100_def)
qed

text \<open>
  C4. Comparing an image with itself flags no pixel, and the overlay is the image: same
  width, same height, same bytes.
\<close>

theorem identity_case:
  assumes "sized img"
  shows "totalChangedPixels (snd (generateDifferenceImage s img img)) = 0
       \<and> diffData (snd (generateDifferenceImage s img img)) = img"
proof -
  let ?r = "snd (onload 30 flagRed s img img)"
  have cnt: "totalChangedPixels ?r = 0"
    by (simp add: onload_totalChangedPixels changed_same)
  have len: "length (data (diffData ?r)) = length (data img)"
    using assms by (simp add: onload_data_length sized_def)
  have "data (diffData ?r) ! j = data img ! j" if "j < length (data img)" for j
  proof -
    from that assms have p: "j div 4 < width img * height img"
      by (simp add: sized_def) 
    have kk: "j mod 4 < 4" by simp
    have "data (diffData ?r) ! (4 * (j div 4) + j mod 4) =
          outByte 30 flagRed (data img) (data img) (4 * (j div 4)) (j mod 4)"
      using onload_data_nth [OF assms p kk] .
    then show ?thesis
      using that by (simp add: outByte_def changed_same)
  qed
  with len have "data (diffData ?r) = data img"
    by (simp add: nth_equalityI)
  then have "diffData ?r = img"
    by (simp add: onload_diffData)
  with cnt show ?thesis
    by (simp add: generateDifferenceImage_def)
qed

theorem identity_case_witness:
  "sized wide2
   \<and> totalChangedPixels (snd (generateDifferenceImage canvas0 wide2 wide2)) = 0
   \<and> data (diffData (snd (generateDifferenceImage canvas0 wide2 wide2))) =
       [255, 255, 255, 255, 200, 200, 200, 255]"
proof -
  have h: "sized wide2" by (simp add: sized_def wide2_def)
  from identity_case [OF h, of canvas0] show ?thesis
    using h by (simp add: wide2_def)
qed




text \<open>
  C6, as the code has it. The handler makes no test for an empty image and the source
  has no error named \<open>EmptyImage\<close>. When one of the two images has width or height 0 and
  a 2D context is available, the canvas call \<open>ctx.getImageData\<close> throws the
  \<open>IndexSizeError\<close> of the browser, for the "before" image first: the handler ends after
  it has given the canvas the size of the "before" image, \<open>resultImage\<close> is left as it
  was, and no overlay, count or ratio is computed.
\<close>

theorem empty_image_throws:
  assumes "img_width bi = 0 \<or> img_height bi = 0 \<or> img_width ai = 0 \<or> img_height ai = 0"
  shows "afterImg_onload has2d s bi ai =
           Inl (if has2d then IndexSizeError else CouldNotGetContext,
                s\<lparr>canvas_width := img_width bi, canvas_height := img_height bi\<rparr>)"
  using assms
  by (auto simp add: afterImg_onload_def getImageData_def createImageData_def Let_def)

theorem empty_image_throws_witness:
  "img_width emptyImg = 0
   \<and> afterImg_onload True canvas0 emptyImg pixelImg =
       Inl (IndexSizeError, \<lparr>canvas_width = 0, canvas_height = 0, resultImage = None\<rparr>)
   \<and> img_height emptyImg = 0
   \<and> afterImg_onload True canvas0 pixelImg emptyImg =
       Inl (IndexSizeError, \<lparr>canvas_width = 1, canvas_height = 1, resultImage = None\<rparr>)"
proof -
  have h: "img_width emptyImg = 0" by (simp add: emptyImg_def)
  from empty_image_throws [where bi = emptyImg and ai = pixelImg and has2d = True
      and s = canvas0]
    empty_image_throws [where bi = pixelImg and ai = emptyImg and has2d = True
      and s = canvas0]
  show ?thesis
    using h by (simp add: canvas0_def emptyImg_def pixelImg_def)
qed

text \<open>
  On an image of width and height 0 the failure is the exception of the canvas call,
  not a result of the handler's own.
\<close>

theorem empty_image_counterexample:
  "afterImg_onload True canvas0 emptyImg pixelImg =
     Inl (IndexSizeError, \<lparr>canvas_width = 0, canvas_height = 0, resultImage = None\<rparr>)"
  by code_simp



text \<open>
  C8. The values computed by the handler depend on the two images, the threshold and the
  flag colour only: started from any two states (canvas sizes and result images left by
  earlier runs), it computes the same overlay, the same count, the same ratio and leaves
  the same result image and canvas size. \<open>totalChangedPixels\<close> starts at 0 in every
  run, the canvas size is overwritten before it is read, and no random number is drawn
  in lines 128 to 167.
\<close>

theorem result_independent_of_earlier_state:
  "snd (onload t f s b a) = snd (onload t f s' b a)
   \<and> resultImage (fst (onload t f s b a)) = resultImage (fst (onload t f s' b a))
   \<and> canvas_width (fst (onload t f s b a)) = canvas_width (fst (onload t f s' b a))
   \<and> canvas_height (fst (onload t f s b a)) = canvas_height (fst (onload t f s' b a))"
  by (simp add: onload_def Let_def split: prod.splits)

theorem result_independent_of_earlier_state_witness:
  "snd (onload 30 flagRed canvas0 px100 px131) =
     snd (onload 30 flagRed \<lparr>canvas_width = 1, canvas_height = 1, resultImage = Some wide2\<rparr>
            px100 px131)"
  using result_independent_of_earlier_state
    [of 30 flagRed canvas0 px100 px131
        "\<lparr>canvas_width = 1, canvas_height = 1, resultImage = Some wide2\<rparr>"]
  by simp

text \<open>
  C9. Raising the threshold never flags more pixels.
\<close>

theorem count_antitone_in_threshold:
  assumes "t \<le> t'"
  shows "totalChangedPixels (snd (onload t' f s b a)) \<le> totalChangedPixels (snd (onload t f s b a))"
  unfolding onload_totalChangedPixels
  by (rule length_filter_mono) (rule changed_mono [OF assms])

theorem count_antitone_in_threshold_witness:
  "(30::int) \<le> 31
   \<and> totalChangedPixels (snd (onload 31 flagRed canvas0 px100 px131))
        \<le> totalChangedPixels (snd (onload 30 flagRed canvas0 px100 px131))"
proof -
  have h: "(30::int) \<le> 31" by simp
  from count_antitone_in_threshold [OF h, of flagRed canvas0 px100 px131]
  show ?thesis by simp
qed

text \<open>
  C10. Exchanging two images of equal size leaves the number of flagged pixels and the
  ratio as they are.
\<close>

theorem count_symmetric_in_images:
  assumes "width x = width y" and "height x = height y" and "length (data x) = length (data y)"
  shows "totalChangedPixels (snd (onload t f s x y)) = totalChangedPixels (snd (onload t f s y x))
       \<and> changeRatio (snd (onload t f s x y)) = changeRatio (snd (onload t f s y x))"
proof -
  have "changed t (data x) (data y) = changed t (data y) (data x)"
    by (rule ext) (rule changed_sym)
  then have "totalChangedPixels (snd (onload t f s x y)) = totalChangedPixels (snd (onload t f s y x))"
    by (simp add: onload_totalChangedPixels assms(3))
  then show ?thesis
    by (simp add: onload_changeRatio onload_totalPixels assms(1,2))
qed

theorem count_symmetric_in_images_witness:
  "width px100 = width px131 \<and> height px100 = height px131
   \<and> length (data px100) = length (data px131)
   \<and> totalChangedPixels (snd (onload 30 flagRed canvas0 px100 px131)) =
       totalChangedPixels (snd (onload 30 flagRed canvas0 px131 px100))
   \<and> changeRatio (snd (onload 30 flagRed canvas0 px100 px131)) =
       changeRatio (snd (onload 30 flagRed canvas0 px131 px100))"
proof -
  have h1: "width px100 = width px131" by (simp add: px100_def px131_def)
  have h2: "height px100 = height px131" by (simp add: px100_def px131_def)
  have h3: "length (data px100) = length (data px131)" by (simp add: px100_def px131_def)
  from count_symmetric_in_images [OF h1 h2 h3, of 30 flagRed canvas0]
  show ?thesis
    using h1 h2 h3 by simp
qed

end
